theory Spec2Isabelle
  imports Complex_Main "HOL-Library.Sublist" "HOL-Library.Multiset"
begin

section \<open>Data model of the digest route\<close>

text \<open>
  The digest route (the handler that reads the timeline, ranks it, asks the language
  model for a digest and caches the answer) works on the interface \<open>Post\<close>. Counts are
  JavaScript numbers holding the integers the upstream API sends; they are modelled as
  \<open>int\<close>, and the engagement score, a multiple of one half, as \<open>rat\<close> (double arithmetic
  is exact on these values far beyond any real count).
\<close>

record author =
  handle :: string
  displayName :: "string option"
  avatar :: "string option"

record quoted_post =
  quoted_handle :: "string option"
  quoted_text :: string

record post =
  uri :: string
  author :: author
  post_text :: string
  createdAt :: string
  likeCount :: int
  repostCount :: int
  replyCount :: int
  quotedPost :: "quoted_post option"

subsection \<open>Raw feed items and the normalizer \<open>extractPost\<close>\<close>

text \<open>
  A nested record of an embed: its \<open>$type\<close> tag, the author's handle and the text of its
  value, each possibly absent.
\<close>

record embedded_record =
  record_type :: "string option"
  record_author_handle :: "string option"
  record_value_text :: "string option"

text \<open>
  The embed of a raw post, by its \<open>$type\<close> tag: \<open>app.bsky.embed.record#view\<close> carries the
  nested record directly, \<open>app.bsky.embed.recordWithMedia#view\<close> carries it one level
  deeper; an absent step of the path is \<open>None\<close>. Any other tag, or no embed, is
  \<open>OtherEmbed\<close>.
\<close>

datatype embed =
  RecordView "embedded_record option"
| RecordWithMediaView "embedded_record option"
| OtherEmbed

record raw_item =
  item_uri :: string
  item_author :: author
  item_embed :: embed
  item_record_text :: "string option"
  item_record_createdAt :: "string option"
  item_likeCount :: "int option"
  item_repostCount :: "int option"
  item_replyCount :: "int option"

definition viewRecord :: "embedded_record option \<Rightarrow> quoted_post option" where
  "viewRecord r =
     (case r of
        None \<Rightarrow> None
      | Some record \<Rightarrow>
          if record_type record = Some ''app.bsky.embed.record#viewRecord''
          then Some \<lparr>quoted_handle = record_author_handle record,
                     quoted_text = (case record_value_text record of None \<Rightarrow> '''' | Some t \<Rightarrow> t)\<rparr>
          else None)"

definition extractPost :: "raw_item \<Rightarrow> post" where
  "extractPost item =
     \<lparr>uri = item_uri item,
      author = item_author item,
      post_text = (case item_record_text item of None \<Rightarrow> '''' | Some t \<Rightarrow> t),
      createdAt = (case item_record_createdAt item of None \<Rightarrow> '''' | Some t \<Rightarrow> t),
      likeCount = (case item_likeCount item of None \<Rightarrow> 0 | Some n \<Rightarrow> n),
      repostCount = (case item_repostCount item of None \<Rightarrow> 0 | Some n \<Rightarrow> n),
      replyCount = (case item_replyCount item of None \<Rightarrow> 0 | Some n \<Rightarrow> n),
      quotedPost =
        (case item_embed item of
           RecordView r \<Rightarrow> viewRecord r
         | RecordWithMediaView r \<Rightarrow> viewRecord r
         | OtherEmbed \<Rightarrow> None)\<rparr>"

section \<open>Engagement ranker\<close>

definition calculateEngagementScore :: "post \<Rightarrow> rat" where
  "calculateEngagementScore p =
     of_int (likeCount p) + of_int (repostCount p) * 2 + of_int (replyCount p) * (3 / 2)"

text \<open>
  \<open>Array.prototype.sort\<close> with a comparator is a stable sort: \<open>a\<close> goes before \<open>b\<close> when
  the comparator is negative, and equal elements keep their input order. It is modelled
  as the stable insertion sort; every stable sort returns the same list for a comparator
  that is the difference of two keys.
\<close>

fun insert_by :: "('a \<Rightarrow> 'a \<Rightarrow> rat) \<Rightarrow> 'a \<Rightarrow> 'a list \<Rightarrow> 'a list" where
  "insert_by cmp x [] = [x]"
| "insert_by cmp x (y # ys) =
     (if cmp x y \<le> 0 then x # y # ys else y # insert_by cmp x ys)"

definition js_sort :: "('a \<Rightarrow> 'a \<Rightarrow> rat) \<Rightarrow> 'a list \<Rightarrow> 'a list" where
  "js_sort cmp xs = foldr (insert_by cmp) xs []"

definition by_engagement :: "post \<Rightarrow> post \<Rightarrow> rat" where
  "by_engagement a b = calculateEngagementScore b - calculateEngagementScore a"

text \<open>\<open>[...posts].sort((a, b) => score(b) - score(a)).slice(0, 150)\<close>\<close>

definition rankPosts :: "post list \<Rightarrow> post list" where
  "rankPosts posts = take 150 (js_sort by_engagement posts)"

section \<open>Deduplication by uri\<close>

text \<open>
  \<open>filter\<close> with a \<open>Set\<close> of the uris seen so far: a post whose uri is in the set is
  dropped, any other post is kept and its uri added.
\<close>

fun dedupe_seen :: "string set \<Rightarrow> post list \<Rightarrow> post list" where
  "dedupe_seen seen [] = []"
| "dedupe_seen seen (p # ps) =
     (if uri p \<in> seen then dedupe_seen seen ps
      else p # dedupe_seen (insert (uri p) seen) ps)"

definition dedupeByUri :: "post list \<Rightarrow> post list" where
  "dedupeByUri ps = dedupe_seen {} ps"

section \<open>Mapping the model's response back to posts\<close>

record notable =
  postIndex :: int
  reason :: string

text \<open>The object built for a notable post: the post without its \<open>createdAt\<close>.\<close>

record notable_body =
  nb_uri :: string
  nb_author :: author
  nb_text :: string
  nb_likeCount :: int
  nb_repostCount :: int
  nb_replyCount :: int
  nb_quotedPost :: "quoted_post option"

record notable_entry =
  entry_post :: "notable_body option"
  entry_reason :: string

text \<open>
  Reading a JavaScript array at an integer: \<open>undefined\<close> (here \<open>None\<close>) outside
  \<open>0 .. length - 1\<close>.
\<close>

definition js_index :: "'a list \<Rightarrow> int \<Rightarrow> 'a option" where
  "js_index xs i = (if 0 \<le> i \<and> i < int (length xs) then Some (xs ! nat i) else None)"

definition notable_body_of :: "post \<Rightarrow> notable_body" where
  "notable_body_of p =
     \<lparr>nb_uri = uri p, nb_author = author p, nb_text = post_text p,
      nb_likeCount = likeCount p, nb_repostCount = repostCount p,
      nb_replyCount = replyCount p, nb_quotedPost = quotedPost p\<rparr>"

definition notablePostsWithData :: "post list \<Rightarrow> notable list \<Rightarrow> notable_entry list" where
  "notablePostsWithData postsForDigest notablePosts =
     filter (\<lambda>p. entry_post p \<noteq> None)
       (map (\<lambda>n. \<lparr>entry_post = map_option notable_body_of (js_index postsForDigest (postIndex n - 1)),
                  entry_reason = reason n\<rparr>)
          notablePosts)"

section \<open>Upstream feed access\<close>

text \<open>
  A call to the social network either throws or returns a page: the items of the page
  and the cursor for the next one, absent at the end of the feed.
\<close>

datatype error = Thrown string

record page =
  page_feed :: "raw_item list"
  page_cursor :: "string option"

text \<open>
  The agent of an authenticated session: \<open>getTimeline({limit, cursor})\<close>,
  \<open>getProfile({actor})\<close> returning the actor's DID, and
  \<open>app.bsky.feed.getFeed({feed, limit, cursor})\<close>.
\<close>

record agent =
  getTimeline :: "nat \<Rightarrow> string option \<Rightarrow> error + page"
  getProfile :: "string \<Rightarrow> error + string"
  getFeed :: "string \<Rightarrow> nat \<Rightarrow> string option \<Rightarrow> error + page"

subsection \<open>Dates\<close>

text \<open>
  \<open>new Date(s)\<close> is the host's parser, a parameter of the model: it gives the instant in
  milliseconds since the epoch, or \<open>None\<close> for an Invalid Date, whose time value is NaN.
  The empty string never parses. \<open><\<close> and \<open>>\<close> on dates compare the time values, and
  every comparison with NaN is false.
\<close>

type_synonym date_parser = "string \<Rightarrow> int option"

definition js_Date :: "date_parser \<Rightarrow> string \<Rightarrow> int option" where
  "js_Date parse s = (if s = '''' then None else parse s)"

definition date_lt :: "int option \<Rightarrow> int option \<Rightarrow> bool" where
  "date_lt a b = (case (a, b) of (Some x, Some y) \<Rightarrow> x < y | _ \<Rightarrow> False)"

definition date_gt :: "int option \<Rightarrow> int option \<Rightarrow> bool" where
  "date_gt a b = (case (a, b) of (Some x, Some y) \<Rightarrow> x > y | _ \<Rightarrow> False)"

text \<open>\<open>!cursor\<close>, \<open>!sessionDid\<close>: an absent or empty string is falsy.\<close>

definition js_falsy :: "string option \<Rightarrow> bool" where
  "js_falsy s = (s = None \<or> s = Some '''')"

section \<open>Timeline collector\<close>

record collect_state =
  allPosts :: "post list"
  cursor :: "string option"
  oldPostCount :: nat

text \<open>
  How a pagination loop ends: by \<open>break\<close>, or by an exception of the fetch, which
  leaves the variables as they were when it was thrown.
\<close>

datatype loop_exit = Break collect_state | Throw error collect_state

text \<open>The body of \<open>for (const item of timeline.data.feed)\<close>.\<close>

definition process_item :: "date_parser \<Rightarrow> int \<Rightarrow> collect_state \<Rightarrow> raw_item \<Rightarrow> collect_state" where
  "process_item parse twentyFourHoursAgo st item =
     (let post = extractPost item;
          postDate = js_Date parse (createdAt post)
      in if date_lt postDate (Some twentyFourHoursAgo)
         then st\<lparr>oldPostCount := oldPostCount st + 1\<rparr>
         else st\<lparr>oldPostCount := 0, allPosts := allPosts st @ [post]\<rparr>)"

text \<open>The test \<open>postDate < twentyFourHoursAgo\<close> of that body, on a raw item.\<close>

definition older_than_cutoff :: "date_parser \<Rightarrow> int \<Rightarrow> raw_item \<Rightarrow> bool" where
  "older_than_cutoff parse twentyFourHoursAgo item =
     date_lt (js_Date parse (createdAt (extractPost item))) (Some twentyFourHoursAgo)"

text \<open>
  The \<open>while (true)\<close> loop of the handler, with \<open>MAX_OLD_POSTS = 20\<close>. A fetch that
  throws ends it with the exception. Otherwise every page that does not stop the loop
  either adds a post to \<open>allPosts\<close> or, holding old posts only, raises \<open>oldPostCount\<close>,
  and the loop goes on only while the counter is below 20 and \<open>allPosts\<close> holds at
  most 1000 posts: the loop ends on every upstream.
\<close>

function timeline_loop ::
  "date_parser \<Rightarrow> int \<Rightarrow> (nat \<Rightarrow> string option \<Rightarrow> error + page) \<Rightarrow> collect_state \<Rightarrow> loop_exit" where
  "timeline_loop parse twentyFourHoursAgo fetch st =
     (case fetch 100 (cursor st) of
        Inl e \<Rightarrow> Throw e st
      | Inr timeline \<Rightarrow>
          if length (page_feed timeline) = 0 then Break st
          else
            let st' = (foldl (process_item parse twentyFourHoursAgo) st (page_feed timeline))
                        \<lparr>cursor := page_cursor timeline\<rparr>
            in if oldPostCount st' \<ge> 20 \<or> js_falsy (cursor st') \<or> length (allPosts st') > 1000
               then Break st'
               else timeline_loop parse twentyFourHoursAgo fetch st')"
  by pat_completeness auto
termination
proof (relation "measure (\<lambda>(parse, cutoff, fetch, st).
         (1001 - length (allPosts st)) * 21 + (20 - oldPostCount st))")
  show "wf (measure (\<lambda>(parse, cutoff, fetch, st).
         (1001 - length (allPosts st)) * 21 + (20 - oldPostCount st)))"
    by simp
next
  fix parse :: date_parser and cutoff :: int
    and fetch :: "nat \<Rightarrow> string option \<Rightarrow> error + page"
    and st st' :: collect_state and timeline :: page
  assume nonempty: "length (page_feed timeline) \<noteq> 0"
    and st': "st' = (foldl (process_item parse cutoff) st (page_feed timeline))
                      \<lparr>cursor := page_cursor timeline\<rparr>"
    and continue: "\<not> (20 \<le> oldPostCount st' \<or> js_falsy (cursor st')
                      \<or> 1000 < length (allPosts st'))"
  have grow: "length (allPosts s) \<le> length (allPosts (foldl (process_item parse cutoff) s items))"
    for s items
  proof (induction items arbitrary: s)
    case Nil
    show ?case by simp
  next
    case (Cons i items)
    have "length (allPosts s) \<le> length (allPosts (process_item parse cutoff s i))"
      by (simp add: process_item_def Let_def)
    with Cons [of "process_item parse cutoff s i"] show ?case by simp
  qed
  have progress: "items \<noteq> [] \<Longrightarrow>
      length (allPosts s) < length (allPosts (foldl (process_item parse cutoff) s items))
      \<or> (length (allPosts s) = length (allPosts (foldl (process_item parse cutoff) s items))
          \<and> oldPostCount s < oldPostCount (foldl (process_item parse cutoff) s items))"
    for s items
  proof (induction items arbitrary: s)
    case Nil
    then show ?case by simp
  next
    case (Cons i items)
    let ?s1 = "process_item parse cutoff s i"
    have step: "length (allPosts s) < length (allPosts ?s1)
        \<or> (length (allPosts s) = length (allPosts ?s1) \<and> oldPostCount s < oldPostCount ?s1)"
      by (simp add: process_item_def Let_def)
    show ?case
    proof (cases "items = []")
      case True
      with step show ?thesis by simp
    next
      case False
      from Cons.IH [OF False, of ?s1] grow [of ?s1 items] step show ?thesis
        by auto
    qed
  qed
  from nonempty have "page_feed timeline \<noteq> []" by simp
  from progress [OF this, of st] st' continue
  show "((parse, cutoff, fetch, st'), (parse, cutoff, fetch, st))
      \<in> measure (\<lambda>(parse, cutoff, fetch, st).
           (1001 - length (allPosts st)) * 21 + (20 - oldPostCount st))"
    by (auto simp: algebra_simps)
qed

definition initial_state :: "post list \<Rightarrow> collect_state" where
  "initial_state ps = \<lparr>allPosts = ps, cursor = None, oldPostCount = 0\<rparr>"

text \<open>Oldest and newest post: \<open>reduce\<close> without initial value over the posts with a date.\<close>

definition older :: "date_parser \<Rightarrow> post \<Rightarrow> post \<Rightarrow> post" where
  "older parse oldest p =
     (if date_lt (js_Date parse (createdAt p)) (js_Date parse (createdAt oldest)) then p else oldest)"

definition newer :: "date_parser \<Rightarrow> post \<Rightarrow> post \<Rightarrow> post" where
  "newer parse newest p =
     (if date_gt (js_Date parse (createdAt p)) (js_Date parse (createdAt newest)) then p else newest)"

definition postsWithDates :: "post list \<Rightarrow> post list" where
  "postsWithDates posts = filter (\<lambda>p. createdAt p \<noteq> '''') posts"

definition oldestPost :: "date_parser \<Rightarrow> post list \<Rightarrow> post option" where
  "oldestPost parse posts =
     (case postsWithDates posts of [] \<Rightarrow> None | p # ps \<Rightarrow> Some (foldl (older parse) p ps))"

definition newestPost :: "date_parser \<Rightarrow> post list \<Rightarrow> post option" where
  "newestPost parse posts =
     (case postsWithDates posts of [] \<Rightarrow> None | p # ps \<Rightarrow> Some (foldl (newer parse) p ps))"

section \<open>Topic filter\<close>

text \<open>
  \<open>AI_KEYWORDS_REGEX.test\<close> is the host's regular-expression engine on the keyword
  pattern; it is a parameter of the model.
\<close>

definition isAIRelated :: "(string \<Rightarrow> bool) \<Rightarrow> post \<Rightarrow> bool" where
  "isAIRelated keyword_test p =
     keyword_test (post_text p @ (case quotedPost p of None \<Rightarrow> '''' | Some q \<Rightarrow> quoted_text q))"

record ai_feed =
  feed_handle :: string
  feed_rkey :: string

definition AI_FEEDS :: "ai_feed list" where
  "AI_FEEDS = [\<lparr>feed_handle = ''smcgrath.phd'', feed_rkey = ''MLBlend''\<rparr>]"

text \<open>
  The \<open>while (true)\<close> loop of \<open>fetchAIFeedPosts\<close>, with \<open>MAX_OLD_POSTS = 10\<close>; it ends
  for the same reason.
\<close>

function feed_loop ::
  "date_parser \<Rightarrow> int \<Rightarrow> (nat \<Rightarrow> string option \<Rightarrow> error + page) \<Rightarrow> collect_state \<Rightarrow> loop_exit" where
  "feed_loop parse twentyFourHoursAgo fetch st =
     (case fetch 100 (cursor st) of
        Inl e \<Rightarrow> Throw e st
      | Inr feedData \<Rightarrow>
          if length (page_feed feedData) = 0 then Break st
          else
            let st' = (foldl (process_item parse twentyFourHoursAgo) st (page_feed feedData))
                        \<lparr>cursor := page_cursor feedData\<rparr>
            in if oldPostCount st' \<ge> 10 \<or> js_falsy (cursor st') \<or> length (allPosts st') > 500
               then Break st'
               else feed_loop parse twentyFourHoursAgo fetch st')"
  by pat_completeness auto
termination
proof (relation "measure (\<lambda>(parse, cutoff, fetch, st).
         (501 - length (allPosts st)) * 11 + (10 - oldPostCount st))")
  show "wf (measure (\<lambda>(parse, cutoff, fetch, st).
         (501 - length (allPosts st)) * 11 + (10 - oldPostCount st)))"
    by simp
next
  fix parse :: date_parser and cutoff :: int
    and fetch :: "nat \<Rightarrow> string option \<Rightarrow> error + page"
    and st st' :: collect_state and feedData :: page
  assume nonempty: "length (page_feed feedData) \<noteq> 0"
    and st': "st' = (foldl (process_item parse cutoff) st (page_feed feedData))
                      \<lparr>cursor := page_cursor feedData\<rparr>"
    and continue: "\<not> (10 \<le> oldPostCount st' \<or> js_falsy (cursor st')
                      \<or> 500 < length (allPosts st'))"
  have grow: "length (allPosts s) \<le> length (allPosts (foldl (process_item parse cutoff) s items))"
    for s items
  proof (induction items arbitrary: s)
    case Nil
    show ?case by simp
  next
    case (Cons i items)
    have "length (allPosts s) \<le> length (allPosts (process_item parse cutoff s i))"
      by (simp add: process_item_def Let_def)
    with Cons [of "process_item parse cutoff s i"] show ?case by simp
  qed
  have progress: "items \<noteq> [] \<Longrightarrow>
      length (allPosts s) < length (allPosts (foldl (process_item parse cutoff) s items))
      \<or> (length (allPosts s) = length (allPosts (foldl (process_item parse cutoff) s items))
          \<and> oldPostCount s < oldPostCount (foldl (process_item parse cutoff) s items))"
    for s items
  proof (induction items arbitrary: s)
    case Nil
    then show ?case by simp
  next
    case (Cons i items)
    let ?s1 = "process_item parse cutoff s i"
    have step: "length (allPosts s) < length (allPosts ?s1)
        \<or> (length (allPosts s) = length (allPosts ?s1) \<and> oldPostCount s < oldPostCount ?s1)"
      by (simp add: process_item_def Let_def)
    show ?case
    proof (cases "items = []")
      case True
      with step show ?thesis by simp
    next
      case False
      from Cons.IH [OF False, of ?s1] grow [of ?s1 items] step show ?thesis
        by auto
    qed
  qed
  from nonempty have "page_feed feedData \<noteq> []" by simp
  from progress [OF this, of st] st' continue
  show "((parse, cutoff, fetch, st'), (parse, cutoff, fetch, st))
      \<in> measure (\<lambda>(parse, cutoff, fetch, st).
           (501 - length (allPosts st)) * 11 + (10 - oldPostCount st))"
    by (auto simp: algebra_simps)
qed

fun exit_posts :: "loop_exit \<Rightarrow> post list" where
  "exit_posts (Break st) = allPosts st"
| "exit_posts (Throw e st) = allPosts st"

text \<open>
  One round of \<open>for (const feed of AI_FEEDS)\<close>: the \<open>try\<close> block resolves the handle and
  paginates the feed into the shared \<open>allPosts\<close>; the \<open>catch\<close> logs and goes on, keeping
  what was pushed before the exception.
\<close>

definition fetch_one_feed ::
  "date_parser \<Rightarrow> int \<Rightarrow> agent \<Rightarrow> post list \<Rightarrow> ai_feed \<Rightarrow> post list" where
  "fetch_one_feed parse twentyFourHoursAgo ag posts feed =
     (case getProfile ag (feed_handle feed) of
        Inl e \<Rightarrow> posts
      | Inr did \<Rightarrow>
          let feedUri = ''at://'' @ did @ ''/app.bsky.feed.generator/'' @ feed_rkey feed
          in exit_posts
               (feed_loop parse twentyFourHoursAgo (getFeed ag feedUri) (initial_state posts)))"

definition fetchAIFeedPosts :: "date_parser \<Rightarrow> agent \<Rightarrow> int \<Rightarrow> post list" where
  "fetchAIFeedPosts parse ag twentyFourHoursAgo =
     foldl (fetch_one_feed parse twentyFourHoursAgo ag) [] AI_FEEDS"

subsection \<open>The pagination policy of the specification\<close>

text \<open>
  The collector as the specification words it, with its three inputs as parameters: the
  per-request page size, the consecutive-old-post stop threshold and the hard cap on the
  posts collected. Fetch a page with the cursor of the previous call; an empty page
  stops; a post older than the cutoff increments the counter, any other post is retained
  and resets it; after the page, stop when the counter has reached the threshold, when
  there is no cursor, or when the retained count exceeds the cap.
\<close>

function paginate_policy ::
  "nat \<Rightarrow> nat \<Rightarrow> nat \<Rightarrow> date_parser \<Rightarrow> int \<Rightarrow> (nat \<Rightarrow> string option \<Rightarrow> error + page)
   \<Rightarrow> collect_state \<Rightarrow> loop_exit" where
  "paginate_policy page_size stop_threshold hard_cap parse cutoff fetch st =
     (case fetch page_size (cursor st) of
        Inl e \<Rightarrow> Throw e st
      | Inr pg \<Rightarrow>
          if page_feed pg = [] then Break st
          else
            let st' = (foldl (process_item parse cutoff) st (page_feed pg))\<lparr>cursor := page_cursor pg\<rparr>
            in if stop_threshold \<le> oldPostCount st' \<or> js_falsy (page_cursor pg)
                  \<or> hard_cap < length (allPosts st')
               then Break st'
               else paginate_policy page_size stop_threshold hard_cap parse cutoff fetch st')"
  by pat_completeness auto
termination
proof (relation "measure (\<lambda>(page_size, stop_threshold, hard_cap, parse, cutoff, fetch, st).
         (Suc hard_cap - length (allPosts st)) * Suc stop_threshold
           + (stop_threshold - oldPostCount st))")
  show "wf (measure (\<lambda>(page_size, stop_threshold, hard_cap, parse, cutoff, fetch, st).
         (Suc hard_cap - length (allPosts st)) * Suc stop_threshold
           + (stop_threshold - oldPostCount st)))"
    by simp
next
  fix page_size stop_threshold hard_cap :: nat
    and parse :: date_parser and cutoff :: int
    and fetch :: "nat \<Rightarrow> string option \<Rightarrow> error + page"
    and st st' :: collect_state and pg :: page
  assume nonempty: "page_feed pg \<noteq> []"
    and st': "st' = (foldl (process_item parse cutoff) st (page_feed pg))\<lparr>cursor := page_cursor pg\<rparr>"
    and continue: "\<not> (stop_threshold \<le> oldPostCount st' \<or> js_falsy (page_cursor pg)
                      \<or> hard_cap < length (allPosts st'))"
  have grow: "length (allPosts s) \<le> length (allPosts (foldl (process_item parse cutoff) s items))"
    for s items
  proof (induction items arbitrary: s)
    case Nil
    show ?case by simp
  next
    case (Cons i items)
    have "length (allPosts s) \<le> length (allPosts (process_item parse cutoff s i))"
      by (simp add: process_item_def Let_def)
    with Cons [of "process_item parse cutoff s i"] show ?case by simp
  qed
  have progress: "items \<noteq> [] \<Longrightarrow>
      length (allPosts s) < length (allPosts (foldl (process_item parse cutoff) s items))
      \<or> (length (allPosts s) = length (allPosts (foldl (process_item parse cutoff) s items))
          \<and> oldPostCount s < oldPostCount (foldl (process_item parse cutoff) s items))"
    for s items
  proof (induction items arbitrary: s)
    case Nil
    then show ?case by simp
  next
    case (Cons i items)
    let ?s1 = "process_item parse cutoff s i"
    have step: "length (allPosts s) < length (allPosts ?s1)
        \<or> (length (allPosts s) = length (allPosts ?s1) \<and> oldPostCount s < oldPostCount ?s1)"
      by (simp add: process_item_def Let_def)
    show ?case
    proof (cases "items = []")
      case True
      with step show ?thesis by simp
    next
      case False
      from Cons.IH [OF False, of ?s1] grow [of ?s1 items] step show ?thesis
        by auto
    qed
  qed
  let ?r = "length (allPosts st)" and ?r' = "length (allPosts st')"
  let ?c = "oldPostCount st" and ?c' = "oldPostCount st'"
  from continue have below: "?c' < stop_threshold" "?r' \<le> hard_cap" by auto
  from progress [OF nonempty, of st] st'
  have "?r < ?r' \<or> (?r = ?r' \<and> ?c < ?c')" by simp
  then have "(Suc hard_cap - ?r') * Suc stop_threshold + (stop_threshold - ?c')
           < (Suc hard_cap - ?r) * Suc stop_threshold + (stop_threshold - ?c)"
  proof
    assume more: "?r < ?r'"
    with below have "Suc (Suc hard_cap - ?r') \<le> Suc hard_cap - ?r" by arith
    then have less: "Suc (Suc hard_cap - ?r') * Suc stop_threshold
             \<le> (Suc hard_cap - ?r) * Suc stop_threshold"
      by (rule mult_le_mono1)
    have "(Suc hard_cap - ?r') * Suc stop_threshold + (stop_threshold - ?c')
        < (Suc hard_cap - ?r') * Suc stop_threshold + Suc stop_threshold"
      by arith
    also have "\<dots> = Suc (Suc hard_cap - ?r') * Suc stop_threshold"
      by simp
    also note less
    also have "(Suc hard_cap - ?r) * Suc stop_threshold
        \<le> (Suc hard_cap - ?r) * Suc stop_threshold + (stop_threshold - ?c)"
      by arith
    finally show ?thesis .
  next
    assume same: "?r = ?r' \<and> ?c < ?c'"
    with below have "stop_threshold - ?c' < stop_threshold - ?c" by arith
    with same show ?thesis by (simp del: mult_Suc_right)
  qed
  then show "((page_size, stop_threshold, hard_cap, parse, cutoff, fetch, st'),
              (page_size, stop_threshold, hard_cap, parse, cutoff, fetch, st))
      \<in> measure (\<lambda>(page_size, stop_threshold, hard_cap, parse, cutoff, fetch, st).
           (Suc hard_cap - length (allPosts st)) * Suc stop_threshold
             + (stop_threshold - oldPostCount st))"
    by simp
qed

text \<open>
  The equations of the three loops rewrite a loop into itself; they are unfolded one
  iteration at a time.
\<close>

declare timeline_loop.simps [simp del] feed_loop.simps [simp del] paginate_policy.simps [simp del]

section \<open>Digest cache\<close>

datatype DigestType = General | AI

record digest_meta =
  totalPosts :: nat
  postsAnalyzed :: nat
  newestPostDate :: "string option"
  oldestPostDate :: "string option"
  generatedAt :: int
  meta_digestType :: DigestType
  keywordMatches :: "nat option"
  feedPostCount :: "nat option"

record digest =
  overview :: string
  notablePosts :: "notable_entry list"
  trendingTopics :: "string list"
  meta :: digest_meta

text \<open>
  An instant is a number of milliseconds since the epoch. \<open>toISOString().split("T")[0]\<close>
  prints the UTC calendar date of an instant; the date is modelled as the number of the
  UTC day, which the printed \<open>YYYY-MM-DD\<close> determines and is determined by.
\<close>

definition utc_date :: "int \<Rightarrow> int" where
  "utc_date now = now div 86400000"

record DigestCache =
  cache_digest :: digest
  cache_date :: int

text \<open>The key \<open>digest:${type}:${today}\<close>, as the pair of its two variable parts.\<close>

type_synonym cache_key = "DigestType \<times> int"

definition getCacheKey :: "int \<Rightarrow> DigestType \<Rightarrow> cache_key" where
  "getCacheKey now ty = (ty, utc_date now)"

text \<open>
  The backing store is an external service, a generic expiring key-value store: each
  key holds at most one value with the instant at which it expires, \<open>set\<close> replaces
  whatever the key held, \<open>get\<close> returns the value while it has not expired. A call made
  at an instant at which the store fails throws.
\<close>

record kv_store =
  kv_entries :: "cache_key \<Rightarrow> (DigestCache \<times> int) option"
  kv_failing :: "int \<Rightarrow> bool"

definition kv_get :: "kv_store \<Rightarrow> int \<Rightarrow> cache_key \<Rightarrow> error + DigestCache option" where
  "kv_get kv now key =
     (if kv_failing kv now then Inl (Thrown ''kv'')
      else Inr (case kv_entries kv key of
                  None \<Rightarrow> None
                | Some (v, expires) \<Rightarrow> if now < expires then Some v else None))"

definition kv_set :: "kv_store \<Rightarrow> int \<Rightarrow> cache_key \<Rightarrow> DigestCache \<Rightarrow> int \<Rightarrow> error + kv_store" where
  "kv_set kv now key v ex =
     (if kv_failing kv now then Inl (Thrown ''kv'')
      else Inr (kv\<lparr>kv_entries := (kv_entries kv)(key \<mapsto> (v, now + ex * 1000))\<rparr>))"

text \<open>
  \<open>getCache\<close> and \<open>setCache\<close>, each at the instant \<open>now\<close> of its call; both catch every
  exception of the store.
\<close>

definition getCache :: "kv_store \<Rightarrow> int \<Rightarrow> DigestType \<Rightarrow> DigestCache option" where
  "getCache kv now ty =
     (case kv_get kv now (getCacheKey now ty) of
        Inl e \<Rightarrow> None
      | Inr cache \<Rightarrow> cache)"

definition setCache :: "kv_store \<Rightarrow> int \<Rightarrow> DigestType \<Rightarrow> digest \<Rightarrow> kv_store" where
  "setCache kv now ty d =
     (let cache = \<lparr>cache_digest = d, cache_date = utc_date now\<rparr>
      in case kv_set kv now (getCacheKey now ty) cache 86400 of
           Inl e \<Rightarrow> kv
         | Inr kv' \<Rightarrow> kv')"

section \<open>The digest request\<close>

text \<open>The object parsed from the model's answer.\<close>

record digestData =
  data_overview :: string
  data_notablePosts :: "notable list"
  data_trendingTopics :: "string list"

text \<open>
  What the handler finds around it: the API key of the environment, the session cookie,
  the restored OAuth session wrapped into an agent (\<open>None\<close> when the session is gone),
  the host's date parser and keyword pattern, and the language model: the prompt built
  from the ranked posts, the completion call and the parsing of its answer, which
  throws on an answer that is not the JSON asked for.
\<close>

record env =
  ANTHROPIC_API_KEY :: "string option"
  bsky_session :: "string option"
  restore :: "string \<Rightarrow> error + agent option"
  parseDate :: date_parser
  keyword_test :: "string \<Rightarrow> bool"
  askModel :: "DigestType \<Rightarrow> post list \<Rightarrow> error + digestData"

text \<open>The three instants at which a request reads the clock.\<close>

record clock =
  t_cache_read :: int
  t_collect :: int
  t_finish :: int

record request =
  param_refresh :: "string option"
  param_type :: "string option"

datatype response =
  DigestResponse digest "DigestType option" bool
| ErrorResponse nat string

text \<open>
  Selection of the posts for the digest; the result carries \<open>keywordMatches\<close> and
  \<open>feedPostCount\<close>, defined for the AI digest only.
\<close>

definition selectPosts ::
  "env \<Rightarrow> agent \<Rightarrow> int \<Rightarrow> DigestType \<Rightarrow> post list \<Rightarrow> post list \<times> nat option \<times> nat option" where
  "selectPosts e ag twentyFourHoursAgo digestType posts =
     (if digestType = AI then
        let aiTimelinePosts = filter (isAIRelated (keyword_test e)) posts;
            aiFeedPosts = fetchAIFeedPosts (parseDate e) ag twentyFourHoursAgo
        in (rankPosts (dedupeByUri (aiTimelinePosts @ aiFeedPosts)),
            Some (length aiTimelinePosts), Some (length aiFeedPosts))
      else (rankPosts posts, None, None))"

text \<open>\<open>newestPost?.createdAt || null\<close>: null for no post and for an empty date.\<close>

definition date_or_null :: "post option \<Rightarrow> string option" where
  "date_or_null p =
     (case p of
        None \<Rightarrow> None
      | Some q \<Rightarrow> if createdAt q = '''' then None else Some (createdAt q))"

text \<open>
  The body of the \<open>try\<close> block once the agent exists: collect, deduplicate, find the date
  range, select and rank, ask the model, map its answer. \<open>Inl\<close> is an exception, which
  the handler's \<open>catch\<close> turns into the 500 response.
\<close>

definition generateDigest ::
  "env \<Rightarrow> clock \<Rightarrow> agent \<Rightarrow> DigestType \<Rightarrow> error + digest" where
  "generateDigest e clk ag digestType =
     (let twentyFourHoursAgo = t_collect clk - 24 * 60 * 60 * 1000
      in case timeline_loop (parseDate e) twentyFourHoursAgo (getTimeline ag) (initial_state []) of
           Throw err st \<Rightarrow> Inl err
         | Break st \<Rightarrow>
             (let posts = dedupeByUri (allPosts st);
                  (postsForDigest, matches, fetched) =
                     selectPosts e ag twentyFourHoursAgo digestType posts
              in case askModel e digestType postsForDigest of
                   Inl err \<Rightarrow> Inl err
                 | Inr data \<Rightarrow>
                     Inr \<lparr>overview = data_overview data,
                          notablePosts =
                            notablePostsWithData postsForDigest (data_notablePosts data),
                          trendingTopics = data_trendingTopics data,
                          meta =
                            \<lparr>totalPosts = length posts,
                             postsAnalyzed = length postsForDigest,
                             newestPostDate = date_or_null (newestPost (parseDate e) posts),
                             oldestPostDate = date_or_null (oldestPost (parseDate e) posts),
                             generatedAt = t_finish clk,
                             meta_digestType = digestType,
                             keywordMatches = matches,
                             feedPostCount = fetched\<rparr>\<rparr>))"

text \<open>
  The two query parameters: \<open>refresh\<close> is requested by the value \<open>true\<close> only, and every
  type other than \<open>ai\<close> is the general digest.
\<close>

definition refresh_of :: "request \<Rightarrow> bool" where
  "refresh_of req = (param_refresh req = Some ''true'')"

definition digestType_of :: "request \<Rightarrow> DigestType" where
  "digestType_of req = (if param_type req = Some ''ai'' then AI else General)"

text \<open>
  The handler. Its result is the response and the store it leaves. The deletion of the
  cookie of a lost session is not part of the model.
\<close>

definition GET :: "env \<Rightarrow> clock \<Rightarrow> kv_store \<Rightarrow> request \<Rightarrow> response \<times> kv_store" where
  "GET e clk kv req =
     (let refresh = refresh_of req;
          digestType = digestType_of req
      in case (if \<not> refresh then getCache kv (t_cache_read clk) digestType else None) of
           Some cached \<Rightarrow> (DigestResponse (cache_digest cached) (Some digestType) True, kv)
         | None \<Rightarrow>
             if js_falsy (ANTHROPIC_API_KEY e)
             then (ErrorResponse 500 ''Missing Anthropic API key'', kv)
             else
               (case bsky_session e of
                  None \<Rightarrow> (ErrorResponse 401 ''Not authenticated'', kv)
                | Some sessionDid \<Rightarrow>
                    if sessionDid = '''' then (ErrorResponse 401 ''Not authenticated'', kv)
                    else
                      (case restore e sessionDid of
                         Inl err \<Rightarrow> (ErrorResponse 500 ''Failed to generate digest'', kv)
                       | Inr None \<Rightarrow> (ErrorResponse 401 ''Session expired'', kv)
                       | Inr (Some ag) \<Rightarrow>
                           (case generateDigest e clk ag digestType of
                              Inl err \<Rightarrow> (ErrorResponse 500 ''Failed to generate digest'', kv)
                            | Inr d \<Rightarrow>
                                (DigestResponse d None False,
                                 setCache kv (t_finish clk) digestType d)))))"

section \<open>Sample data\<close>

text \<open>
  Posts, raw items, a date parser and upstream feeds for concrete runs. The sample
  parser knows two dates: \<open>old\<close> is the instant 0, \<open>new\<close> the instant 100; the cutoff of
  the sample runs is 50.
\<close>

definition sample_author :: author where
  "sample_author = \<lparr>handle = ''alice.test'', displayName = None, avatar = None\<rparr>"

definition sample_post :: "string \<Rightarrow> string \<Rightarrow> int \<Rightarrow> post" where
  "sample_post u created likes =
     \<lparr>uri = u, author = sample_author, post_text = ''hello'', createdAt = created,
      likeCount = likes, repostCount = 0, replyCount = 0, quotedPost = None\<rparr>"

definition sample_item :: "string \<Rightarrow> string option \<Rightarrow> raw_item" where
  "sample_item u created =
     \<lparr>item_uri = u, item_author = sample_author, item_embed = OtherEmbed,
      item_record_text = Some ''hello'', item_record_createdAt = created,
      item_likeCount = None, item_repostCount = None, item_replyCount = None\<rparr>"

definition sample_parse :: date_parser where
  "sample_parse s = (if s = ''old'' then Some 0 else if s = ''new'' then Some 100 else None)"

definition old_item :: raw_item where
  "old_item = sample_item ''at://old'' (Some ''old'')"

definition new_item :: "string \<Rightarrow> raw_item" where
  "new_item u = sample_item u (Some ''new'')"

text \<open>An upstream whose feed is one page, with no cursor.\<close>

definition single_page :: "raw_item list \<Rightarrow> nat \<Rightarrow> string option \<Rightarrow> error + page" where
  "single_page items limit c = Inr \<lparr>page_feed = items, page_cursor = None\<rparr>"

text \<open>
  An upstream of two pages: ten old posts and a cursor, then one new post and no
  cursor.
\<close>

definition two_pages :: "nat \<Rightarrow> string option \<Rightarrow> error + page" where
  "two_pages limit c =
     (if c = None then Inr \<lparr>page_feed = replicate 10 old_item, page_cursor = Some ''c1''\<rparr>
      else Inr \<lparr>page_feed = [new_item ''at://n''], page_cursor = None\<rparr>)"

text \<open>
  An upstream that serves the feed new, new, twenty old posts, new in two pages: the
  first page ends on the twentieth old post and carries a cursor, the second holds the
  trailing new post and no cursor.
\<close>

definition split_pages :: "nat \<Rightarrow> string option \<Rightarrow> error + page" where
  "split_pages limit c =
     (if c = None
      then Inr \<lparr>page_feed = [new_item ''at://1'', new_item ''at://2''] @ replicate 20 old_item,
                 page_cursor = Some ''c1''\<rparr>
      else Inr \<lparr>page_feed = [new_item ''at://3''], page_cursor = None\<rparr>)"

text \<open>An upstream that hands out a cursor and a full page of one hundred new posts forever.\<close>

definition full_pages :: "nat \<Rightarrow> string option \<Rightarrow> error + page" where
  "full_pages limit c =
     Inr \<lparr>page_feed = replicate 100 (new_item ''at://n''), page_cursor = Some ''next''\<rparr>"

text \<open>A store that works and holds nothing, and a store that fails at every instant.\<close>

definition empty_store :: kv_store where
  "empty_store = \<lparr>kv_entries = (\<lambda>key. None), kv_failing = (\<lambda>now. False)\<rparr>"

definition failing_store :: kv_store where
  "failing_store = \<lparr>kv_entries = (\<lambda>key. None), kv_failing = (\<lambda>now. True)\<rparr>"

definition sample_digest :: digest where
  "sample_digest =
     \<lparr>overview = ''quiet day'', notablePosts = [], trendingTopics = [''isabelle''],
      meta = \<lparr>totalPosts = 1, postsAnalyzed = 1, newestPostDate = Some ''new'',
               oldestPostDate = Some ''new'', generatedAt = 5, meta_digestType = General,
               keywordMatches = None, feedPostCount = None\<rparr>\<rparr>"

text \<open>
  A session whose timeline is one page with one new post, and a model that names that
  post.
\<close>

definition sample_agent :: agent where
  "sample_agent =
     \<lparr>getTimeline = single_page [new_item ''at://n''],
      getProfile = (\<lambda>actor. Inl (Thrown ''profile'')),
      getFeed = (\<lambda>feed. single_page [])\<rparr>"

definition sample_env :: env where
  "sample_env =
     \<lparr>ANTHROPIC_API_KEY = Some ''key'',
      bsky_session = Some ''did:plc:alice'',
      restore = (\<lambda>did. Inr (Some sample_agent)),
      parseDate = sample_parse,
      keyword_test = (\<lambda>s. False),
      askModel = (\<lambda>ty posts. Inr \<lparr>data_overview = ''quiet day'',
                      data_notablePosts = [\<lparr>postIndex = 1, reason = ''only one''\<rparr>],
                      data_trendingTopics = []\<rparr>)\<rparr>"

definition sample_clock :: clock where
  "sample_clock = \<lparr>t_cache_read = 1000, t_collect = 2000, t_finish = 3000\<rparr>"

definition plain_request :: request where
  "plain_request = \<lparr>param_refresh = None, param_type = None\<rparr>"

text \<open>The digest that the sample session generates at the sample clock.\<close>

definition generated_digest :: digest where
  "generated_digest =
     \<lparr>overview = ''quiet day'',
      notablePosts = [\<lparr>entry_post = Some (notable_body_of (extractPost (new_item ''at://n''))),
                       entry_reason = ''only one''\<rparr>],
      trendingTopics = [],
      meta = \<lparr>totalPosts = 1, postsAnalyzed = 1, newestPostDate = Some ''new'',
               oldestPostDate = Some ''new'', generatedAt = 3000, meta_digestType = General,
               keywordMatches = None, feedPostCount = None\<rparr>\<rparr>"

section \<open>Properties of the engagement ranker\<close>

lemma insert_by_set: "set (insert_by cmp x ys) = insert x (set ys)"
  by (induction ys) auto

lemma insert_by_mset: "mset (insert_by cmp x ys) = add_mset x (mset ys)"
  by (induction ys) auto

lemma insert_by_sorted:
  "sorted_wrt (\<lambda>a b. calculateEngagementScore b \<le> calculateEngagementScore a) ys \<Longrightarrow>
   sorted_wrt (\<lambda>a b. calculateEngagementScore b \<le> calculateEngagementScore a)
     (insert_by by_engagement x ys)"
  by (induction ys) (auto simp: insert_by_set by_engagement_def)

lemma js_sort_sorted:
  "sorted_wrt (\<lambda>a b. calculateEngagementScore b \<le> calculateEngagementScore a)
     (js_sort by_engagement xs)"
  unfolding js_sort_def by (induction xs) (auto intro: insert_by_sorted)

lemma js_sort_mset: "mset (js_sort cmp xs) = mset xs"
  unfolding js_sort_def by (induction xs) (auto simp: insert_by_mset)

lemma sorted_wrt_take_prefix: "sorted_wrt R xs \<Longrightarrow> sorted_wrt R (take n xs)"
  by (metis append_take_drop_id sorted_wrt_append)

text \<open>
  C5. The score of a post is likes + 2 * reposts + 1.5 * replies; the ranked list is
  non-increasing in score from each element to every later one, has at most 150
  elements, and is the first 150 of a score-sorted rearrangement of the input.
\<close>

theorem engagement_ranking:
  "calculateEngagementScore p
     = of_int (likeCount p) + 2 * of_int (repostCount p) + (3 / 2) * of_int (replyCount p)
   \<and> sorted_wrt (\<lambda>a b. calculateEngagementScore b \<le> calculateEngagementScore a) (rankPosts posts)
   \<and> length (rankPosts posts) \<le> 150
   \<and> (\<exists>sorted_posts.
         mset sorted_posts = mset posts
         \<and> sorted_wrt (\<lambda>a b. calculateEngagementScore b \<le> calculateEngagementScore a) sorted_posts
         \<and> rankPosts posts = take 150 sorted_posts)"
proof -
  have score: "calculateEngagementScore p
     = of_int (likeCount p) + 2 * of_int (repostCount p) + (3 / 2) * of_int (replyCount p)"
    by (simp add: calculateEngagementScore_def)
  have sorted: "sorted_wrt (\<lambda>a b. calculateEngagementScore b \<le> calculateEngagementScore a)
      (rankPosts posts)"
    unfolding rankPosts_def by (rule sorted_wrt_take_prefix) (rule js_sort_sorted)
  have len: "length (rankPosts posts) \<le> 150"
    by (simp add: rankPosts_def)
  have perm: "\<exists>sorted_posts.
         mset sorted_posts = mset posts
         \<and> sorted_wrt (\<lambda>a b. calculateEngagementScore b \<le> calculateEngagementScore a) sorted_posts
         \<and> rankPosts posts = take 150 sorted_posts"
    unfolding rankPosts_def using js_sort_mset js_sort_sorted by blast
  from score sorted len perm show ?thesis by blast
qed

section \<open>Properties of the deduplication\<close>

lemma dedupe_seen_unseen: "p \<in> set (dedupe_seen seen ps) \<Longrightarrow> uri p \<notin> seen"
  by (induction ps arbitrary: seen) (auto split: if_splits)

lemma dedupe_seen_distinct: "distinct (map uri (dedupe_seen seen ps))"
  by (induction ps arbitrary: seen) (auto dest: dedupe_seen_unseen)

lemma dedupe_seen_subseq: "subseq (dedupe_seen seen ps) ps"
  by (induction ps arbitrary: seen) auto

lemma dedupe_seen_first:
  "p \<in> set (dedupe_seen seen ps) \<Longrightarrow> find (\<lambda>q. uri q = uri p) ps = Some p"
  by (induction ps arbitrary: seen) (auto split: if_splits dest: dedupe_seen_unseen)

lemma dedupe_seen_uris: "uri ` set (dedupe_seen seen ps) = uri ` set ps - seen"
  by (induction ps arbitrary: seen) auto

text \<open>
  C6. In the deduplicated list no two elements share a uri; every element is the first
  post of the input with its uri; the list is a subsequence of the input, so the first
  occurrences keep their relative order; and every uri of the input is still there.
\<close>

theorem dedupe_first_occurrences:
  "distinct (map uri (dedupeByUri ps))
   \<and> (\<forall>p \<in> set (dedupeByUri ps). find (\<lambda>q. uri q = uri p) ps = Some p)
   \<and> subseq (dedupeByUri ps) ps
   \<and> uri ` set (dedupeByUri ps) = uri ` set ps"
  unfolding dedupeByUri_def
  using dedupe_seen_distinct [of "{}" ps] dedupe_seen_subseq [of "{}" ps]
    dedupe_seen_uris [of "{}" ps] dedupe_seen_first [of _ "{}" ps]
  by simp

theorem dedupe_first_occurrences_witness:
  "dedupeByUri [sample_post ''at://a'' ''new'' 1, sample_post ''at://b'' ''new'' 2,
                sample_post ''at://a'' ''new'' 3]
     = [sample_post ''at://a'' ''new'' 1, sample_post ''at://b'' ''new'' 2]
   \<and> find (\<lambda>q. uri q = ''at://a'')
        [sample_post ''at://a'' ''new'' 1, sample_post ''at://b'' ''new'' 2,
         sample_post ''at://a'' ''new'' 3]
     = Some (sample_post ''at://a'' ''new'' 1)"
  using dedupe_first_occurrences [of "[sample_post ''at://a'' ''new'' 1,
     sample_post ''at://b'' ''new'' 2, sample_post ''at://a'' ''new'' 3]"]
  by (simp add: dedupeByUri_def sample_post_def)

section \<open>Properties of the response mapping\<close>

text \<open>
  C1, as the code has it. The output is, in the order of the response, one entry for
  each returned index within \<open>1 .. length\<close> of the ranked list, carrying the ranked post
  at that 1-based position; every index outside the range is dropped, so no entry has
  a null post. An index returned twice yields two entries: duplicates are not dropped.
\<close>

theorem notable_mapping_in_range:
  "notablePostsWithData ranked ns =
     map (\<lambda>n. \<lparr>entry_post = Some (notable_body_of (ranked ! nat (postIndex n - 1))),
                entry_reason = reason n\<rparr>)
       (filter (\<lambda>n. 1 \<le> postIndex n \<and> postIndex n \<le> int (length ranked)) ns)"
  unfolding notablePostsWithData_def
  by (induction ns) (auto simp: js_index_def)

text \<open>
  C1 as stated fails: against a ranked list of one post, the response that names index 1
  twice yields two entries for that post.
\<close>

theorem notable_mapping_duplicate_counterexample:
  "notablePostsWithData [sample_post ''at://a'' ''new'' 1]
     [\<lparr>postIndex = 1, reason = ''first''\<rparr>, \<lparr>postIndex = 1, reason = ''again''\<rparr>]
   = [\<lparr>entry_post = Some (notable_body_of (sample_post ''at://a'' ''new'' 1)),
       entry_reason = ''first''\<rparr>,
      \<lparr>entry_post = Some (notable_body_of (sample_post ''at://a'' ''new'' 1)),
       entry_reason = ''again''\<rparr>]"
  by (simp add: notablePostsWithData_def js_index_def)

section \<open>Properties of the pagination loops\<close>

lemma process_item_old:
  "older_than_cutoff parse cutoff item \<Longrightarrow>
   process_item parse cutoff st item = st\<lparr>oldPostCount := oldPostCount st + 1\<rparr>"
  by (simp add: process_item_def older_than_cutoff_def Let_def)

lemma process_item_recent:
  "\<not> older_than_cutoff parse cutoff item \<Longrightarrow>
   process_item parse cutoff st item
     = st\<lparr>oldPostCount := 0, allPosts := allPosts st @ [extractPost item]\<rparr>"
  by (simp add: process_item_def older_than_cutoff_def Let_def)

lemma foldl_all_old:
  "\<forall>i \<in> set items. older_than_cutoff parse cutoff i \<Longrightarrow>
   foldl (process_item parse cutoff) st items
     = st\<lparr>oldPostCount := oldPostCount st + length items\<rparr>"
  by (induction items arbitrary: st) (auto simp: process_item_old)

lemma foldl_all_recent:
  "\<forall>i \<in> set items. \<not> older_than_cutoff parse cutoff i \<Longrightarrow>
   foldl (process_item parse cutoff) st items =
     st\<lparr>oldPostCount := (if items = [] then oldPostCount st else 0),
        allPosts := allPosts st @ map extractPost items\<rparr>"
  by (induction items arbitrary: st) (auto simp: process_item_recent)

lemma foldl_retained_length:
  "length (allPosts (foldl (process_item parse cutoff) st items))
     \<le> length (allPosts st) + length items"
proof (induction items arbitrary: st)
  case Nil
  show ?case by simp
next
  case (Cons i items)
  have "length (allPosts (process_item parse cutoff st i)) \<le> length (allPosts st) + 1"
    by (simp add: process_item_def Let_def)
  with Cons [of "process_item parse cutoff st i"] show ?case by simp
qed

lemma old_item_old: "older_than_cutoff sample_parse 50 old_item"
  by (simp add: older_than_cutoff_def old_item_def sample_item_def extractPost_def js_Date_def
      sample_parse_def date_lt_def)

lemma new_item_recent: "\<not> older_than_cutoff sample_parse 50 (new_item u)"
  by (simp add: older_than_cutoff_def new_item_def sample_item_def extractPost_def js_Date_def
      sample_parse_def date_lt_def)

subsection \<open>Posts without a date\<close>

lemma empty_date_not_old:
  "createdAt (extractPost item) = '''' \<Longrightarrow> \<not> older_than_cutoff parse cutoff item"
  by (simp add: older_than_cutoff_def js_Date_def date_lt_def)

lemma postsWithDates_idem:
  "postsWithDates (filter (\<lambda>p. createdAt p \<noteq> '''') posts) = postsWithDates posts"
  by (simp add: postsWithDates_def)

text \<open>
  C9. A post whose \<open>createdAt\<close> is empty has no age: the cutoff never counts it as old,
  whatever the cutoff is, so the collector retains it and resets the counter. The
  oldest and the newest post are those of the posts with a non-empty \<open>createdAt\<close>
  alone, they are such posts, and both are null when no post carries a timestamp.
\<close>

theorem empty_createdAt_unknown_age:
  "(createdAt (extractPost item) = '''' \<longrightarrow>
      \<not> older_than_cutoff parse cutoff item
      \<and> process_item parse cutoff st item
          = st\<lparr>oldPostCount := 0, allPosts := allPosts st @ [extractPost item]\<rparr>)
   \<and> oldestPost parse posts = oldestPost parse (filter (\<lambda>p. createdAt p \<noteq> '''') posts)
   \<and> newestPost parse posts = newestPost parse (filter (\<lambda>p. createdAt p \<noteq> '''') posts)
   \<and> ((\<forall>p \<in> set undated. createdAt p = '''') \<longrightarrow>
         oldestPost parse undated = None \<and> newestPost parse undated = None)
   \<and> (\<forall>p. oldestPost parse posts = Some p \<or> newestPost parse posts = Some p \<longrightarrow>
         p \<in> set posts \<and> createdAt p \<noteq> '''')"
proof -
  have in_set: "foldl (older parse) p ps \<in> set (p # ps)" "foldl (newer parse) p ps \<in> set (p # ps)"
    for p ps
    by (induction ps arbitrary: p) (auto simp: older_def newer_def)
  have sel: "\<forall>q. oldestPost parse posts = Some q \<or> newestPost parse posts = Some q \<longrightarrow>
      q \<in> set posts \<and> createdAt q \<noteq> ''''"
  proof (intro allI impI)
    fix q
    assume "oldestPost parse posts = Some q \<or> newestPost parse posts = Some q"
    then obtain p ps where ps: "postsWithDates posts = p # ps"
      and q: "q = foldl (older parse) p ps \<or> q = foldl (newer parse) p ps"
      by (auto simp: oldestPost_def newestPost_def split: list.splits)
    from q in_set [of p ps] have "q \<in> set (postsWithDates posts)" unfolding ps by auto
    then show "q \<in> set posts \<and> createdAt q \<noteq> ''''" by (simp add: postsWithDates_def)
  qed
  have none: "(\<forall>p \<in> set undated. createdAt p = '''') \<longrightarrow>
      oldestPost parse undated = None \<and> newestPost parse undated = None"
  proof
    assume "\<forall>p \<in> set undated. createdAt p = ''''"
    then have "postsWithDates undated = []"
      by (auto simp: postsWithDates_def filter_empty_conv)
    then show "oldestPost parse undated = None \<and> newestPost parse undated = None"
      by (simp add: oldestPost_def newestPost_def)
  qed
  have retained: "createdAt (extractPost item) = '''' \<longrightarrow>
      \<not> older_than_cutoff parse cutoff item
      \<and> process_item parse cutoff st item
          = st\<lparr>oldPostCount := 0, allPosts := allPosts st @ [extractPost item]\<rparr>"
    using empty_date_not_old [of item parse cutoff] process_item_recent [of parse cutoff item st]
    by blast
  have oldest: "oldestPost parse posts = oldestPost parse (filter (\<lambda>p. createdAt p \<noteq> '''') posts)"
    by (simp only: oldestPost_def postsWithDates_idem)
  have newest: "newestPost parse posts = newestPost parse (filter (\<lambda>p. createdAt p \<noteq> '''') posts)"
    by (simp only: newestPost_def postsWithDates_idem)
  from retained oldest newest none sel show ?thesis by (intro conjI)
qed

theorem empty_createdAt_unknown_age_witness:
  "createdAt (extractPost (sample_item ''at://u'' None)) = ''''
   \<and> process_item sample_parse 50 (initial_state [sample_post ''at://a'' ''new'' 1])
        (sample_item ''at://u'' None)
     = \<lparr>allPosts = [sample_post ''at://a'' ''new'' 1, extractPost (sample_item ''at://u'' None)],
        cursor = None, oldPostCount = 0\<rparr>
   \<and> oldestPost sample_parse [sample_post ''at://u'' '''' 1] = None
   \<and> newestPost sample_parse [sample_post ''at://u'' '''' 1] = None
   \<and> oldestPost sample_parse [sample_post ''at://u'' '''' 1, sample_post ''at://a'' ''new'' 2]
     = Some (sample_post ''at://a'' ''new'' 2)
   \<and> sample_post ''at://a'' ''new'' 2
       \<in> set [sample_post ''at://u'' '''' 1, sample_post ''at://a'' ''new'' 2]"
  using empty_createdAt_unknown_age [of "sample_item ''at://u'' None" sample_parse 50
      "initial_state [sample_post ''at://a'' ''new'' 1]"
      "[sample_post ''at://u'' '''' 1, sample_post ''at://a'' ''new'' 2]"
      "[sample_post ''at://u'' '''' 1]"]
  by (simp add: extractPost_def sample_item_def initial_state_def sample_post_def
      oldestPost_def postsWithDates_def)

subsection \<open>Stop conditions\<close>

text \<open>
  C3 as stated fails: on the feed of 25 old posts in one page, with no cursor, the loop
  exits with the counter at 25, not at 20.
\<close>

theorem old_run_counterexample:
  "timeline_loop sample_parse 50 (single_page (replicate 25 old_item)) (initial_state [])
     = Break \<lparr>allPosts = [], cursor = None, oldPostCount = 25\<rparr>"
  by (subst timeline_loop.simps)
     (simp add: single_page_def foldl_all_old old_item_old initial_state_def js_falsy_def Let_def)

text \<open>
  C3, as the code has it. For a feed of 25 posts all older than the cutoff, delivered as
  one page with no cursor, the collector processes the whole page: it exits by
  \<open>break\<close> after that page with the counter at 25 and the retained list empty.
\<close>

theorem old_run_whole_page:
  assumes "length items = 25" "\<forall>i \<in> set items. older_than_cutoff parse cutoff i"
    "fetch 100 None = Inr \<lparr>page_feed = items, page_cursor = None\<rparr>"
  shows "timeline_loop parse cutoff fetch (initial_state [])
     = Break \<lparr>allPosts = [], cursor = None, oldPostCount = 25\<rparr>"
  using assms
  by (subst timeline_loop.simps)
     (auto simp: foldl_all_old initial_state_def js_falsy_def Let_def)

theorem old_run_whole_page_witness:
  "length (replicate 25 (sample_item ''at://w'' (Some ''old''))) = 25
   \<and> older_than_cutoff sample_parse 50 (sample_item ''at://w'' (Some ''old''))
   \<and> timeline_loop sample_parse 50
        (single_page (replicate 25 (sample_item ''at://w'' (Some ''old'')))) (initial_state [])
     = Break \<lparr>allPosts = [], cursor = None, oldPostCount = 25\<rparr>"
  using old_run_whole_page [of "replicate 25 (sample_item ''at://w'' (Some ''old''))"
      sample_parse 50 "single_page (replicate 25 (sample_item ''at://w'' (Some ''old'')))"]
  by (simp add: single_page_def older_than_cutoff_def sample_item_def extractPost_def
      js_Date_def sample_parse_def date_lt_def)

text \<open>
  C4 as stated fails: when the feed new, new, twenty old posts, new is served with the
  page boundary after the run of old posts, the stop test after the first page finds
  the counter at 20 and the loop exits there; the trailing new post is never fetched,
  the counter is not reset, and only the two leading posts are retained.
\<close>

theorem trailing_new_post_split_counterexample:
  "timeline_loop sample_parse 50 split_pages (initial_state [])
     = Break \<lparr>allPosts = [extractPost (new_item ''at://1''), extractPost (new_item ''at://2'')],
              cursor = Some ''c1'', oldPostCount = 20\<rparr>"
  apply (subst timeline_loop.simps)
  apply (simp add: split_pages_def initial_state_def)
  apply (simp add: process_item_recent new_item_recent foldl_all_old old_item_old)
  done

text \<open>
  C4, as the code has it. For the feed new, new, twenty old posts, new, delivered as
  one page with no cursor: after the run of old posts the counter stands at 20, the
  loop does not stop there, since the stop conditions are tested after the page only,
  and the trailing new post resets the counter to zero and is retained with the two
  leading ones.
\<close>

theorem trailing_new_post_resets:
  assumes "\<not> older_than_cutoff parse cutoff n1" "\<not> older_than_cutoff parse cutoff n2"
    "\<not> older_than_cutoff parse cutoff n3"
    "length olds = 20" "\<forall>i \<in> set olds. older_than_cutoff parse cutoff i"
    "fetch 100 None = Inr \<lparr>page_feed = [n1, n2] @ olds @ [n3], page_cursor = None\<rparr>"
  shows "foldl (process_item parse cutoff) (initial_state []) ([n1, n2] @ olds)
        = \<lparr>allPosts = [extractPost n1, extractPost n2], cursor = None, oldPostCount = 20\<rparr>
    \<and> process_item parse cutoff
          \<lparr>allPosts = [extractPost n1, extractPost n2], cursor = None, oldPostCount = 20\<rparr> n3
        = \<lparr>allPosts = [extractPost n1, extractPost n2, extractPost n3],
           cursor = None, oldPostCount = 0\<rparr>
    \<and> timeline_loop parse cutoff fetch (initial_state [])
        = Break \<lparr>allPosts = [extractPost n1, extractPost n2, extractPost n3],
                 cursor = None, oldPostCount = 0\<rparr>"
proof -
  have run: "foldl (process_item parse cutoff) (initial_state []) ([n1, n2] @ olds)
        = \<lparr>allPosts = [extractPost n1, extractPost n2], cursor = None, oldPostCount = 20\<rparr>"
    using assms(1,2,4,5)
    by (simp add: initial_state_def process_item_recent foldl_all_old)
  have reset: "process_item parse cutoff
          \<lparr>allPosts = [extractPost n1, extractPost n2], cursor = None, oldPostCount = 20\<rparr> n3
        = \<lparr>allPosts = [extractPost n1, extractPost n2, extractPost n3],
           cursor = None, oldPostCount = 0\<rparr>"
    using assms(3) by (simp add: process_item_recent)
  have exit: "timeline_loop parse cutoff fetch (initial_state [])
        = Break \<lparr>allPosts = [extractPost n1, extractPost n2, extractPost n3],
                 cursor = None, oldPostCount = 0\<rparr>"
    using assms
    by (subst timeline_loop.simps)
       (simp add: initial_state_def process_item_recent foldl_all_old js_falsy_def Let_def)
  from run reset exit show ?thesis by (intro conjI)
qed

theorem trailing_new_post_resets_witness:
  "timeline_loop sample_parse 50
     (single_page ([new_item ''at://1'', new_item ''at://2''] @ replicate 20 old_item
                   @ [new_item ''at://3'']))
     (initial_state [])
   = Break \<lparr>allPosts = [extractPost (new_item ''at://1''), extractPost (new_item ''at://2''),
                         extractPost (new_item ''at://3'')],
            cursor = None, oldPostCount = 0\<rparr>"
  using trailing_new_post_resets [of sample_parse 50 "new_item ''at://1''" "new_item ''at://2''"
      "new_item ''at://3''" "replicate 20 old_item"
      "single_page ([new_item ''at://1'', new_item ''at://2''] @ replicate 20 old_item
                    @ [new_item ''at://3''])"]
  by (simp add: new_item_recent old_item_old single_page_def)

subsection \<open>The hard cap\<close>

lemma timeline_bound:
  "(\<forall>c pg. fetch 100 c = Inr pg \<longrightarrow> length (page_feed pg) \<le> 100) \<Longrightarrow>
   length (allPosts st) \<le> 1000 \<Longrightarrow>
   length (exit_posts (timeline_loop parse cutoff fetch st)) \<le> 1100"
proof (induction parse cutoff fetch st rule: timeline_loop.induct)
  case (1 parse cutoff fetch st)
  note lim = "1.prems"(1) and inv = "1.prems"(2)
  show ?case
  proof (cases "fetch 100 (cursor st)")
    case (Inl e)
    with inv show ?thesis by (subst timeline_loop.simps) simp
  next
    case (Inr pg)
    let ?st' = "(foldl (process_item parse cutoff) st (page_feed pg))\<lparr>cursor := page_cursor pg\<rparr>"
    from lim Inr have "length (page_feed pg) \<le> 100" by blast
    with foldl_retained_length [of parse cutoff st "page_feed pg"] inv
    have bound: "length (allPosts ?st') \<le> 1100" by simp
    show ?thesis
    proof (cases "length (page_feed pg) = 0")
      case True
      with Inr inv show ?thesis by (subst timeline_loop.simps) simp
    next
      case False
      show ?thesis
      proof (cases "oldPostCount ?st' \<ge> 20 \<or> js_falsy (cursor ?st')
                      \<or> length (allPosts ?st') > 1000")
        case True
        with Inr False bound show ?thesis
          by (subst timeline_loop.simps) (simp add: Let_def)
      next
        case continue: False
        then have "length (allPosts ?st') \<le> 1000" by simp
        from "1.IH" [OF Inr False refl continue lim this]
        have "length (exit_posts (timeline_loop parse cutoff fetch ?st')) \<le> 1100" .
        with Inr False continue show ?thesis
          by (subst timeline_loop.simps) (simp add: Let_def)
      qed
    qed
  qed
qed

lemma timeline_stops_over_cap:
  "fetch 100 (cursor st) = Inr pg \<Longrightarrow> page_feed pg \<noteq> [] \<Longrightarrow>
   1000 < length (allPosts (foldl (process_item parse cutoff) st (page_feed pg))) \<Longrightarrow>
   timeline_loop parse cutoff fetch st
     = Break ((foldl (process_item parse cutoff) st (page_feed pg))\<lparr>cursor := page_cursor pg\<rparr>)"
  by (subst timeline_loop.simps) (simp add: Let_def)

text \<open>
  C10. When the upstream honours the page size of 100, the loop, started with nothing
  retained, always exits, and the retained list at its exit has at most 1100 posts.
  Whenever a page, processed to its last item, leaves more than 1000 posts retained,
  the loop exits at the check that follows that page, with the whole page processed.
\<close>

theorem hard_cap_overshoot:
  assumes "\<forall>c pg. fetch 100 c = Inr pg \<longrightarrow> length (page_feed pg) \<le> 100"
  shows "length (exit_posts (timeline_loop parse cutoff fetch (initial_state []))) \<le> 1100
    \<and> (fetch 100 (cursor st) = Inr pg \<and> page_feed pg \<noteq> []
         \<and> 1000 < length (allPosts (foldl (process_item parse cutoff) st (page_feed pg))) \<longrightarrow>
       timeline_loop parse cutoff fetch st
         = Break ((foldl (process_item parse cutoff) st (page_feed pg))
                    \<lparr>cursor := page_cursor pg\<rparr>))"
  using assms timeline_bound [of fetch "initial_state []" parse cutoff]
    timeline_stops_over_cap [of fetch st pg parse cutoff]
  by (simp add: initial_state_def)

lemma full_page_step:
  "foldl (process_item sample_parse 50) st (replicate 100 (new_item ''at://n''))
   = st\<lparr>oldPostCount := 0,
        allPosts := allPosts st @ replicate 100 (extractPost (new_item ''at://n''))\<rparr>"
  by (simp add: foldl_all_recent new_item_recent)

theorem hard_cap_overshoot_witness:
  "length (exit_posts (timeline_loop sample_parse 50 full_pages (initial_state []))) \<le> 1100
   \<and> timeline_loop sample_parse 50 full_pages
       \<lparr>allPosts = replicate 1000 (extractPost (new_item ''at://n'')),
        cursor = Some ''next'', oldPostCount = 0\<rparr>
     = Break \<lparr>allPosts = replicate 1100 (extractPost (new_item ''at://n'')),
              cursor = Some ''next'', oldPostCount = 0\<rparr>"
  using hard_cap_overshoot [of full_pages sample_parse 50
      "\<lparr>allPosts = replicate 1000 (extractPost (new_item ''at://n'')),
        cursor = Some ''next'', oldPostCount = 0\<rparr>"
      "\<lparr>page_feed = replicate 100 (new_item ''at://n''), page_cursor = Some ''next''\<rparr>"]
  by (simp add: full_pages_def full_page_step replicate_add [symmetric])

text \<open>
  The bound is reached: on the upstream of full pages of new posts the loop exits
  after the eleventh page with 1100 posts retained.
\<close>

lemma full_pages_run:
  "n + 100 * k = 1000 \<Longrightarrow>
   timeline_loop sample_parse 50 full_pages
     \<lparr>allPosts = replicate n (extractPost (new_item ''at://n'')), cursor = c, oldPostCount = 0\<rparr>
   = Break \<lparr>allPosts = replicate 1100 (extractPost (new_item ''at://n'')),
            cursor = Some ''next'', oldPostCount = 0\<rparr>"
proof (induction k arbitrary: n c)
  case 0
  then have n: "n = 1000" by simp
  show ?case
    unfolding n
    apply (subst timeline_loop.simps)
    apply (simp add: full_pages_def full_page_step)
    apply (simp add: replicate_add [symmetric])
    done
next
  case (Suc k)
  then have next_n: "(n + 100) + 100 * k = 1000" and below: "\<not> 900 < n" by simp_all
  have "timeline_loop sample_parse 50 full_pages
     \<lparr>allPosts = replicate n (extractPost (new_item ''at://n'')), cursor = c, oldPostCount = 0\<rparr>
   = timeline_loop sample_parse 50 full_pages
     \<lparr>allPosts = replicate (n + 100) (extractPost (new_item ''at://n'')),
      cursor = Some ''next'', oldPostCount = 0\<rparr>"
    apply (subst timeline_loop.simps)
    apply (simp add: full_pages_def full_page_step)
    apply (simp add: replicate_add [symmetric] js_falsy_def below Let_def)
    done
  with Suc.IH [OF next_n, of "Some ''next''"] show ?case by simp
qed

lemma overshoot_bound_attained:
  "timeline_loop sample_parse 50 full_pages (initial_state [])
   = Break \<lparr>allPosts = replicate 1100 (extractPost (new_item ''at://n'')),
            cursor = Some ''next'', oldPostCount = 0\<rparr>"
  using full_pages_run [of 0 10 None] by (simp add: initial_state_def)

subsection \<open>The two loops against the pagination policy\<close>

lemma timeline_is_policy:
  "timeline_loop parse cutoff fetch st = paginate_policy 100 20 1000 parse cutoff fetch st"
proof (induction parse cutoff fetch st rule: timeline_loop.induct)
  case (1 parse cutoff fetch st)
  show ?case
    apply (subst timeline_loop.simps)
    apply (subst paginate_policy.simps)
    using 1 by (auto split: sum.splits simp: Let_def)
qed

lemma feed_is_policy:
  "feed_loop parse cutoff fetch st = paginate_policy 100 10 500 parse cutoff fetch st"
proof (induction parse cutoff fetch st rule: feed_loop.induct)
  case (1 parse cutoff fetch st)
  show ?case
    apply (subst feed_loop.simps)
    apply (subst paginate_policy.simps)
    using 1 by (auto split: sum.splits simp: Let_def)
qed

text \<open>
  C2, as the code has it. The Timeline Collector is the pagination policy with page
  size 100, stop threshold 20 and hard cap 1000. The pagination of an external feed is
  the same policy with page size 100, stop threshold 10 and hard cap 500: both the
  threshold and the cap are half of the collector's. Every configured feed whose
  handle resolves is paginated so, into the list shared by the feeds.
\<close>

theorem feed_pagination_policy:
  "timeline_loop parse cutoff fetch st = paginate_policy 100 20 1000 parse cutoff fetch st
   \<and> feed_loop parse cutoff fetch st = paginate_policy 100 10 500 parse cutoff fetch st
   \<and> fetch_one_feed parse cutoff ag posts feed =
       (case getProfile ag (feed_handle feed) of
          Inl e \<Rightarrow> posts
        | Inr did \<Rightarrow>
            exit_posts (paginate_policy 100 10 500 parse cutoff
              (getFeed ag (''at://'' @ did @ ''/app.bsky.feed.generator/'' @ feed_rkey feed))
              (initial_state posts)))"
  by (simp add: timeline_is_policy feed_is_policy fetch_one_feed_def Let_def split: sum.splits)

lemma two_pages_feed:
  "feed_loop sample_parse 50 two_pages (initial_state [])
   = Break \<lparr>allPosts = [], cursor = Some ''c1'', oldPostCount = 10\<rparr>"
  apply (subst feed_loop.simps)
  apply (simp add: two_pages_def initial_state_def)
  apply (simp add: foldl_all_old old_item_old)
  done

lemma two_pages_policy:
  "paginate_policy 100 20 500 sample_parse 50 two_pages (initial_state [])
   = Break \<lparr>allPosts = [extractPost (new_item ''at://n'')], cursor = None, oldPostCount = 0\<rparr>"
  apply (subst paginate_policy.simps)
  apply (simp add: two_pages_def initial_state_def)
  apply (simp add: foldl_all_old old_item_old js_falsy_def)
  apply (subst paginate_policy.simps)
  apply (simp add: two_pages_def)
  apply (simp add: process_item_recent new_item_recent js_falsy_def)
  done

text \<open>
  C2 as stated fails: on the upstream of ten old posts and a cursor, then one new post,
  the feed pagination stops after the first page with nothing retained, where the
  policy with stop threshold 20 and hard cap 500 goes on and retains the new post.
\<close>

theorem feed_threshold_counterexample:
  "feed_loop sample_parse 50 two_pages (initial_state [])
     = Break \<lparr>allPosts = [], cursor = Some ''c1'', oldPostCount = 10\<rparr>
   \<and> paginate_policy 100 20 500 sample_parse 50 two_pages (initial_state [])
     = Break \<lparr>allPosts = [extractPost (new_item ''at://n'')], cursor = None, oldPostCount = 0\<rparr>"
  using two_pages_feed two_pages_policy by (rule conjI)

section \<open>Properties of the digest cache\<close>

lemma same_day_within_ttl:
  "utc_date t_get = utc_date t_set \<Longrightarrow> t_get < t_set + 86400 * 1000"
  unfolding utc_date_def by presburger

lemma getCache_setCache:
  assumes "\<not> kv_failing kv t_set" "\<not> kv_failing kv t_get" "utc_date t_get = utc_date t_set"
  shows "getCache (setCache kv t_set ty d) t_get ty
    = Some \<lparr>cache_digest = d, cache_date = utc_date t_set\<rparr>"
  using assms same_day_within_ttl [of t_get t_set]
  by (simp add: getCache_def setCache_def kv_get_def kv_set_def getCacheKey_def Let_def)

text \<open>
  C7. With the store working at both instants, a write of a digest under a type
  followed by a read of that type on the same UTC calendar date, with no write in
  between, returns the digest stored; a request that is not a refresh and reads the
  cache then is answered with that digest, annotated \<open>cached: true\<close>, and leaves the
  store as it is.
\<close>

theorem cache_round_trip:
  assumes "\<not> kv_failing kv t_set" "\<not> kv_failing kv t_get" "utc_date t_get = utc_date t_set"
  shows "getCache (setCache kv t_set ty d) t_get ty
           = Some \<lparr>cache_digest = d, cache_date = utc_date t_set\<rparr>
         \<and> (\<not> refresh_of req \<and> digestType_of req = ty \<and> t_cache_read clk = t_get \<longrightarrow>
              GET e clk (setCache kv t_set ty d) req
                = (DigestResponse d (Some ty) True, setCache kv t_set ty d))"
  using getCache_setCache [OF assms, of ty d]
  by (auto simp: GET_def Let_def)

theorem cache_round_trip_witness:
  "getCache (setCache empty_store 3000 General sample_digest) 86399999 General
     = Some \<lparr>cache_digest = sample_digest, cache_date = 0\<rparr>
   \<and> GET sample_env (sample_clock\<lparr>t_cache_read := 86399999\<rparr>)
        (setCache empty_store 3000 General sample_digest) plain_request
     = (DigestResponse sample_digest (Some General) True,
        setCache empty_store 3000 General sample_digest)"
  using cache_round_trip [of empty_store 3000 86399999 General sample_digest plain_request
      "sample_clock\<lparr>t_cache_read := 86399999\<rparr>" sample_env]
  by (simp add: empty_store_def utc_date_def refresh_of_def digestType_of_def plain_request_def
      sample_clock_def)

lemma GET_miss:
  "getCache kv (t_cache_read clk) (digestType_of req) = None \<Longrightarrow>
   GET e clk kv req = GET e clk kv (req\<lparr>param_refresh := Some ''true''\<rparr>)"
  by (simp add: GET_def Let_def refresh_of_def digestType_of_def)

lemma GET_refresh_response:
  "refresh_of req \<Longrightarrow> fst (GET e clk kv req) = fst (GET e clk kv' req)"
  by (simp add: GET_def Let_def split: option.splits sum.splits)

text \<open>
  C8. At an instant at which the store fails, \<open>getCache\<close> returns null and \<open>setCache\<close>
  leaves the store as it was. A request whose cache read fails is handled as the same
  request with the cache bypassed, so generation proceeds. After a read that returns
  null, the response does not depend on the store: it is the same whether the read
  failed or missed and whether the write fails or succeeds.
\<close>

theorem cache_failures_swallowed:
  "(kv_failing kv now \<longrightarrow> getCache kv now ty = None \<and> setCache kv now ty d = kv)
   \<and> (kv_failing kv (t_cache_read clk) \<longrightarrow>
        GET e clk kv req = GET e clk kv (req\<lparr>param_refresh := Some ''true''\<rparr>))
   \<and> (getCache kv (t_cache_read clk) (digestType_of req) = None
        \<and> getCache kv' (t_cache_read clk) (digestType_of req) = None \<longrightarrow>
        fst (GET e clk kv req) = fst (GET e clk kv' req))"
proof (intro conjI impI)
  assume "kv_failing kv now"
  then show "getCache kv now ty = None" "setCache kv now ty d = kv"
    by (simp_all add: getCache_def setCache_def kv_get_def kv_set_def Let_def)
next
  assume "kv_failing kv (t_cache_read clk)"
  then have "getCache kv (t_cache_read clk) (digestType_of req) = None"
    by (simp add: getCache_def kv_get_def)
  then show "GET e clk kv req = GET e clk kv (req\<lparr>param_refresh := Some ''true''\<rparr>)"
    by (rule GET_miss)
next
  assume miss: "getCache kv (t_cache_read clk) (digestType_of req) = None
        \<and> getCache kv' (t_cache_read clk) (digestType_of req) = None"
  let ?req = "req\<lparr>param_refresh := Some ''true''\<rparr>"
  have "refresh_of ?req" by (simp add: refresh_of_def)
  from GET_refresh_response [OF this, of e clk kv kv'] miss
  show "fst (GET e clk kv req) = fst (GET e clk kv' req)"
    by (simp add: GET_miss)
qed

lemma sample_run:
  "cutoff \<le> 100 \<Longrightarrow>
   timeline_loop sample_parse cutoff (single_page [new_item ''at://n'']) (initial_state [])
   = Break \<lparr>allPosts = [extractPost (new_item ''at://n'')], cursor = None, oldPostCount = 0\<rparr>"
  apply (subst timeline_loop.simps)
  apply (simp add: single_page_def initial_state_def)
  apply (simp add: process_item_def Let_def js_falsy_def js_Date_def date_lt_def new_item_def
      sample_item_def extractPost_def sample_parse_def)
  done

lemma sample_generate:
  "generateDigest sample_env sample_clock sample_agent General = Inr generated_digest"
  apply (simp add: generateDigest_def sample_env_def sample_clock_def sample_agent_def sample_run)
  apply (simp add: dedupeByUri_def selectPosts_def rankPosts_def js_sort_def
      notablePostsWithData_def js_index_def newestPost_def oldestPost_def postsWithDates_def
      generated_digest_def date_or_null_def)
  apply (simp add: extractPost_def new_item_def sample_item_def)
  done

lemma sample_GET_refresh:
  "GET sample_env sample_clock kv (plain_request\<lparr>param_refresh := Some ''true''\<rparr>)
   = (DigestResponse generated_digest None False, setCache kv 3000 General generated_digest)"
proof -
  have env: "ANTHROPIC_API_KEY sample_env = Some ''key''"
    "bsky_session sample_env = Some ''did:plc:alice''"
    "restore sample_env ''did:plc:alice'' = Inr (Some sample_agent)"
    by (simp_all add: sample_env_def)
  have req: "refresh_of (plain_request\<lparr>param_refresh := Some ''true''\<rparr>)"
    "digestType_of (plain_request\<lparr>param_refresh := Some ''true''\<rparr>) = General"
    by (simp_all add: refresh_of_def digestType_of_def plain_request_def)
  have clk: "t_finish sample_clock = 3000" by (simp add: sample_clock_def)
  show ?thesis
    by (simp add: GET_def Let_def env req clk js_falsy_def sample_generate)
qed

theorem cache_failures_swallowed_witness:
  "getCache failing_store 1000 General = None
   \<and> setCache failing_store 1000 General sample_digest = failing_store
   \<and> GET sample_env sample_clock failing_store plain_request
       = (DigestResponse generated_digest None False, failing_store)
   \<and> fst (GET sample_env sample_clock empty_store plain_request)
       = DigestResponse generated_digest None False"
proof -
  have failing: "kv_failing failing_store 1000" "kv_failing failing_store 3000"
    by (simp_all add: failing_store_def)
  have clk: "t_cache_read sample_clock = 1000" by (simp add: sample_clock_def)
  have req: "digestType_of plain_request = General"
    by (simp add: digestType_of_def plain_request_def)
  have miss: "getCache empty_store 1000 General = None"
    by (simp add: getCache_def kv_get_def empty_store_def)
  have no_write: "setCache failing_store 3000 General generated_digest = failing_store"
    using failing(2) by (simp add: setCache_def kv_set_def Let_def)
  from cache_failures_swallowed [of failing_store 1000 General sample_digest sample_clock
      sample_env plain_request empty_store]
  show ?thesis
    by (auto simp: failing clk req miss sample_GET_refresh no_write)
qed

end
